theory Spec2Isabelle
  imports Main
begin

section \<open>Data model of batch.go\<close>

text \<open>
  A channel is an address into the store of channel buffers, a duration is a number of
  nanoseconds. Go's \<open>int\<close> is taken as an unbounded integer: the code only compares and
  slices with it, and never computes with it.
\<close>

type_synonym chan = nat
type_synonym duration = int

text \<open>\<open>type Job[A any] struct { Id int; Data A }\<close>\<close>

record 'a Job =
  Id_job :: int
  Data :: 'a

text \<open>\<open>type JobResult[B any] struct { JobId int; data *B; ch chan B }\<close>:
  the pointer \<open>data\<close> is \<open>None\<close> when nil.\<close>

record 'b JobResult =
  JobId :: int
  data :: "'b option"
  ch :: chan

text \<open>\<open>type batchJob[A any, B any] struct { job *Job[A]; retCh chan B }\<close>:
  \<open>job\<close> points to the private copy of the argument of \<open>AddJob\<close>, which nothing else
  reaches, so it is held by value.\<close>

record 'a batchJob =
  job :: "'a Job"
  retCh :: chan

text \<open>
  \<open>time.Ticker\<close> of Go's standard library, as far as the batcher uses it: a period and
  the time left until the next tick. \<open>NewTicker\<close> and \<open>Reset\<close> panic on a duration that is
  not positive; \<open>Reset\<close> restarts the countdown from the new period; a tick can be
  received once the countdown has run out, and the next one is due one period after this
  one was. (The library drops the ticks that a late receiver has missed, but for one;
  here they stay due. A receiver that is on time sees no difference.)
\<close>

record Ticker =
  period :: duration
  remaining :: duration

datatype panic = NonPositiveInterval | SliceBoundsOutOfRange

definition NewTicker :: "duration \<Rightarrow> panic + Ticker" where
  "NewTicker d = (if d \<le> 0 then Inl NonPositiveInterval
                  else Inr \<lparr>period = d, remaining = d\<rparr>)"

definition Reset :: "Ticker \<Rightarrow> duration \<Rightarrow> panic + Ticker" where
  "Reset t d = (if d \<le> 0 then Inl NonPositiveInterval
                else Inr (t\<lparr>period := d, remaining := d\<rparr>))"

definition elapse :: "duration \<Rightarrow> Ticker \<Rightarrow> Ticker" where
  "elapse dt t = t\<lparr>remaining := remaining t - dt\<rparr>"

definition tickReady :: "Ticker \<Rightarrow> bool" where
  "tickReady t = (remaining t \<le> 0)"

text \<open>\<open><-ticker.C\<close>: \<open>None\<close> while the receive blocks.\<close>

definition recvTick :: "Ticker \<Rightarrow> Ticker option" where
  "recvTick t = (if tickReady t then Some (t\<lparr>remaining := remaining t + period t\<rparr>)
                 else None)"

text \<open>\<open>type Batcher[A any, B any] struct\<close>. The mutex \<open>mu\<close> has no field here: every
  section of the code that holds it is one atomic function below.\<close>

record ('a, 'b) Batcher =
  processor :: "'a \<Rightarrow> 'b"
  batchSize :: int
  frequency :: duration
  shuttingDown :: bool
  jobs :: "'a batchJob list"
  ticker :: Ticker

text \<open>\<open>errors.New\<close> of a message.\<close>

datatype error = errorString string

definition SubmissionRejected :: error where
  "SubmissionRejected = errorString ''failed to add job; batcher is shutting down''"

section \<open>The program state around one batcher\<close>

text \<open>
  \<open>chans\<close> is the store of channel buffers (the channel \<open>c\<close> is the index \<open>c\<close>; every
  channel of the program is made by \<open>make(chan B, 1)\<close> in \<open>AddJob\<close>), \<open>futures\<close> the
  store of the \<open>JobResult\<close> objects handed out (a \<open>*JobResult\<close> is an index),
  \<open>goroutines\<close> the \<open>processJob\<close> goroutines started so far, in the order of their
  \<open>go\<close> statements, each with its argument and whether it has returned. \<open>schedulers\<close>
  counts the running loops of \<open>Start\<close>, \<open>listeners\<close> those of \<open>startTicker\<close>.
\<close>

record ('a, 'b) world =
  batcher :: "('a, 'b) Batcher"
  chans :: "'b list list"
  futures :: "'b JobResult list"
  goroutines :: "('a batchJob \<times> bool) list"
  schedulers :: nat
  listeners :: nat

subsection \<open>Channels with a buffer of one value\<close>

definition make_chan :: "'b list list \<Rightarrow> chan \<times> 'b list list" where
  "make_chan cs = (length cs, cs @ [[]])"

text \<open>\<open>c <- v\<close>: \<open>None\<close> while the send blocks (the buffer is full).\<close>

definition send :: "'b list list \<Rightarrow> chan \<Rightarrow> 'b \<Rightarrow> 'b list list option" where
  "send cs c v = (if c < length cs \<and> length (cs ! c) < 1
                  then Some (cs[c := cs ! c @ [v]]) else None)"

text \<open>\<open><-c\<close>: \<open>None\<close> while the receive blocks (the buffer is empty).\<close>

definition recv :: "'b list list \<Rightarrow> chan \<Rightarrow> ('b \<times> 'b list list) option" where
  "recv cs c = (if c < length cs
                then (case cs ! c of [] \<Rightarrow> None | v # rest \<Rightarrow> Some (v, cs[c := rest]))
                else None)"

subsection \<open>Slice expressions\<close>

text \<open>\<open>s[lo:hi]\<close> panics unless \<open>0 \<le> lo \<le> hi \<le> cap(s)\<close>. The capacity is taken to be
  the length: where the code slices, the bound it has just tested is the length.\<close>

definition slice :: "'x list \<Rightarrow> int \<Rightarrow> int \<Rightarrow> panic + 'x list" where
  "slice s lo hi = (if 0 \<le> lo \<and> lo \<le> hi \<and> hi \<le> int (length s)
                    then Inr (take (nat (hi - lo)) (drop (nat lo) s))
                    else Inl SliceBoundsOutOfRange)"

section \<open>The operations of batch.go\<close>

subsection \<open>JobResult.Get\<close>

text \<open>Returns the value, the updated \<open>JobResult\<close> and the updated channels; \<open>None\<close> while
  the call blocks on the channel.\<close>

definition Get :: "'b JobResult \<Rightarrow> 'b list list \<Rightarrow> ('b \<times> 'b JobResult \<times> 'b list list) option" where
  "Get jr cs =
     (case data jr of
        Some v \<Rightarrow> Some (v, jr, cs)
      | None \<Rightarrow>
         (case recv cs (ch jr) of
            None \<Rightarrow> None
          | Some (val, cs') \<Rightarrow> Some (val, jr\<lparr>data := Some val\<rparr>, cs')))"

subsection \<open>NewBatcher\<close>

definition NewBatcher :: "('a \<Rightarrow> 'b) \<Rightarrow> duration \<Rightarrow> int \<Rightarrow> panic + ('a, 'b) Batcher" where
  "NewBatcher proc freq bsize =
     (case NewTicker freq of
        Inl p \<Rightarrow> Inl p
      | Inr t \<Rightarrow> Inr \<lparr>processor = proc, batchSize = bsize, frequency = freq,
                       shuttingDown = False, jobs = [], ticker = t\<rparr>)"

text \<open>The program state right after \<open>NewBatcher\<close> has returned \<open>b\<close>.\<close>

definition program :: "('a, 'b) Batcher \<Rightarrow> ('a, 'b) world" where
  "program b = \<lparr>batcher = b, chans = [], futures = [], goroutines = [],
                 schedulers = 0, listeners = 0\<rparr>"

subsection \<open>AddJob\<close>

text \<open>Returns the pair \<open>(*JobResult, error)\<close> of the code, \<open>None\<close> for nil, and the new
  state.\<close>

definition AddJob :: "'a Job \<Rightarrow> ('a, 'b) world \<Rightarrow> (nat option \<times> error option) \<times> ('a, 'b) world" where
  "AddJob j w =
     (if shuttingDown (batcher w) then ((None, Some SubmissionRejected), w)
      else
        let (c, cs) = make_chan (chans w);
            newJob = \<lparr>job = j, retCh = c\<rparr>;
            b = (batcher w)\<lparr>jobs := jobs (batcher w) @ [newJob]\<rparr>;
            p = length (futures w)
        in ((Some p, None),
            w\<lparr>batcher := b, chans := cs,
              futures := futures w @ [\<lparr>JobId = Id_job j, data = None, ch = c\<rparr>]\<rparr>))"

subsection \<open>processJob and processBatch\<close>

text \<open>The body of one \<open>processJob\<close> goroutine, on the channels; \<open>None\<close> while its send
  blocks.\<close>

definition processJob :: "('a, 'b) Batcher \<Rightarrow> 'a batchJob \<Rightarrow> 'b list list \<Rightarrow> 'b list list option" where
  "processJob b j cs = (let res = processor b (Data (job j)) in send cs (retCh j) res)"

text \<open>\<open>go b.processJob(job)\<close> starts a goroutine, which has not returned yet.\<close>

definition go_processJob :: "'a batchJob \<Rightarrow> ('a, 'b) world \<Rightarrow> ('a, 'b) world" where
  "go_processJob j w = w\<lparr>goroutines := goroutines w @ [(j, False)]\<rparr>"

fun processBatch :: "'a batchJob list \<Rightarrow> ('a, 'b) world \<Rightarrow> ('a, 'b) world" where
  "processBatch [] w = w"
| "processBatch (j # batch) w = processBatch batch (go_processJob j w)"

subsection \<open>Shutdown\<close>

definition Shutdown :: "('a, 'b) world \<Rightarrow> ('a, 'b) world" where
  "Shutdown w = w\<lparr>batcher := (batcher w)\<lparr>shuttingDown := True\<rparr>\<rparr>"

subsection \<open>startTicker\<close>

definition set_jobs :: "'a batchJob list \<Rightarrow> ('a, 'b) world \<Rightarrow> ('a, 'b) world" where
  "set_jobs js w = w\<lparr>batcher := (batcher w)\<lparr>jobs := js\<rparr>\<rparr>"

definition set_ticker :: "Ticker \<Rightarrow> ('a, 'b) world \<Rightarrow> ('a, 'b) world" where
  "set_ticker t w = w\<lparr>batcher := (batcher w)\<lparr>ticker := t\<rparr>\<rparr>"

text \<open>The section of the loop body under the mutex:
  \<open>b.processBatch(b.jobs); b.jobs = []batchJob[A, B]{}\<close>.\<close>

definition tickerFlush :: "('a, 'b) world \<Rightarrow> ('a, 'b) world" where
  "tickerFlush w = set_jobs [] (processBatch (jobs (batcher w)) w)"

text \<open>One turn of the loop: the receive from \<open>b.ticker.C\<close>, then the flush. \<open>None\<close> while
  the receive blocks.\<close>

definition startTicker_iter :: "('a, 'b) world \<Rightarrow> ('a, 'b) world option" where
  "startTicker_iter w =
     (case recvTick (ticker (batcher w)) of
        None \<Rightarrow> None
      | Some t \<Rightarrow> Some (tickerFlush (set_ticker t w)))"



subsection \<open>Start\<close>

datatype branch = ShuttingDownCase | BatchSizeCase | NoCase

text \<open>The \<open>switch\<close> of the loop: the first case whose condition holds.\<close>

definition Start_switch :: "('a, 'b) Batcher \<Rightarrow> branch" where
  "Start_switch b =
     (if shuttingDown b then ShuttingDownCase
      else if batchSize b \<le> int (length (jobs b)) then BatchSizeCase
      else NoCase)"

datatype 'w outcome = Return 'w | Continue 'w | Panic panic

definition Start_case :: "branch \<Rightarrow> ('a, 'b) world \<Rightarrow> ('a, 'b) world outcome" where
  "Start_case br w =
     (case br of
        ShuttingDownCase \<Rightarrow>
          Return (if 0 < length (jobs (batcher w))
                  then set_jobs [] (processBatch (jobs (batcher w)) w)
                  else w)
      | BatchSizeCase \<Rightarrow>
          (let b = batcher w in
           case slice (jobs b) 0 (batchSize b) of
             Inl p \<Rightarrow> Panic p
           | Inr batchJobs \<Rightarrow>
              (case slice (jobs b) (batchSize b) (int (length (jobs b))) of
                 Inl p \<Rightarrow> Panic p
               | Inr rest \<Rightarrow>
                  (let w1 = processBatch batchJobs (set_jobs rest w)
                   in case Reset (ticker (batcher w1)) (frequency (batcher w1)) of
                        Inl p \<Rightarrow> Panic p
                      | Inr t \<Rightarrow> Continue (set_ticker t w1))))
      | NoCase \<Rightarrow> Continue w)"

text \<open>One turn of the \<open>for\<close> loop of \<open>Start\<close>. The case is chosen and run in one
  state: no other goroutine takes a step between the test of the \<open>switch\<close> and the
  section under the mutex.\<close>

definition Start_iter :: "('a, 'b) world \<Rightarrow> ('a, 'b) world outcome" where
  "Start_iter w = Start_case (Start_switch (batcher w)) w"

text \<open>\<open>go b.startTicker()\<close>, the first statement of \<open>Start\<close>.\<close>

definition go_startTicker :: "('a, 'b) world \<Rightarrow> ('a, 'b) world" where
  "go_startTicker w = w\<lparr>listeners := Suc (listeners w)\<rparr>"

text \<open>The loop of \<open>Start\<close> on its own, with no other goroutine taking a step in between:
  \<open>None\<close> when it does not return, else the panic or the state in which it returns.\<close>

partial_function (option) Start_loop :: "('a, 'b) world \<Rightarrow> (panic + ('a, 'b) world) option" where
  "Start_loop w =
     (case Start_iter w of
        Return w' \<Rightarrow> Some (Inr w')
      | Panic p \<Rightarrow> Some (Inl p)
      | Continue w' \<Rightarrow> Start_loop w')"

definition Start :: "('a, 'b) world \<Rightarrow> (panic + ('a, 'b) world) option" where
  "Start w = Start_loop (go_startTicker w)"

section \<open>Interleaved executions\<close>

text \<open>
  The steps the goroutines of a program around one batcher can take: a call of \<open>AddJob\<close>,
  \<open>go b.Start()\<close>, one turn of a running \<open>Start\<close> loop, a call of \<open>Shutdown\<close>, one turn
  of a running \<open>startTicker\<close> loop, the passing of time, the body of the \<open>i\<close>-th
  \<open>processJob\<close> goroutine, and a call of \<open>Get\<close> on the \<open>p\<close>-th \<open>JobResult\<close>.
  Each of them is atomic. A step is \<open>Blocked\<close> when the goroutine cannot take it in the
  state, and a \<open>Crash\<close> when it panics, which ends the program.
\<close>

datatype 'a event =
    EvAddJob "'a Job"
  | EvStart
  | EvStartIter
  | EvShutdown
  | EvTick
  | EvElapse duration
  | EvProcessJob nat
  | EvGet nat

datatype 'w result = Blocked | Crash panic | Next 'w

definition step_processJob :: "nat \<Rightarrow> ('a, 'b) world \<Rightarrow> ('a, 'b) world result" where
  "step_processJob i w =
     (if i < length (goroutines w) \<and> \<not> snd (goroutines w ! i)
      then (case processJob (batcher w) (fst (goroutines w ! i)) (chans w) of
              None \<Rightarrow> Blocked
            | Some cs \<Rightarrow>
                Next (w\<lparr>chans := cs,
                        goroutines := (goroutines w)[i := (fst (goroutines w ! i), True)]\<rparr>))
      else Blocked)"

definition step_Get :: "nat \<Rightarrow> ('a, 'b) world \<Rightarrow> ('a, 'b) world result" where
  "step_Get p w =
     (if p < length (futures w)
      then (case Get (futures w ! p) (chans w) of
              None \<Rightarrow> Blocked
            | Some (v, jr, cs) \<Rightarrow> Next (w\<lparr>chans := cs, futures := (futures w)[p := jr]\<rparr>))
      else Blocked)"

fun step :: "'a event \<Rightarrow> ('a, 'b) world \<Rightarrow> ('a, 'b) world result" where
  "step (EvAddJob j) w = Next (snd (AddJob j w))"
| "step EvStart w = Next ((go_startTicker w)\<lparr>schedulers := Suc (schedulers w)\<rparr>)"
| "step EvStartIter w =
     (if schedulers w = 0 then Blocked
      else case Start_iter w of
             Return w' \<Rightarrow> Next (w'\<lparr>schedulers := schedulers w' - 1\<rparr>)
           | Continue w' \<Rightarrow> Next w'
           | Panic p \<Rightarrow> Crash p)"
| "step EvShutdown w = Next (Shutdown w)"
| "step EvTick w =
     (if listeners w = 0 then Blocked
      else case startTicker_iter w of None \<Rightarrow> Blocked | Some w' \<Rightarrow> Next w')"
| "step (EvElapse dt) w =
     (if dt < 0 then Blocked else Next (set_ticker (elapse dt (ticker (batcher w))) w))"
| "step (EvProcessJob i) w = step_processJob i w"
| "step (EvGet p) w = step_Get p w"

fun run :: "'a event list \<Rightarrow> ('a, 'b) world \<Rightarrow> ('a, 'b) world result" where
  "run [] w = Next w"
| "run (e # es) w =
     (case step e w of
        Next w' \<Rightarrow> run es w'
      | Blocked \<Rightarrow> Blocked
      | Crash p \<Rightarrow> Crash p)"

text \<open>Every job admitted so far, in the order of admission: those already dispatched,
  then those still queued.\<close>

definition admitted :: "('a, 'b) world \<Rightarrow> 'a batchJob list" where
  "admitted w = map fst (goroutines w) @ jobs (batcher w)"

text \<open>The jobs that the calls of \<open>AddJob\<close> in an execution admit, in the order of the
  calls.\<close>

fun submissions :: "'a event list \<Rightarrow> ('a, 'b) world \<Rightarrow> 'a Job list" where
  "submissions [] w = []"
| "submissions (e # es) w =
     (case step e w of
        Next w' \<Rightarrow>
          (case e of
             EvAddJob j \<Rightarrow> if shuttingDown (batcher w) then [] else [j]
           | _ \<Rightarrow> []) @ submissions es w'
      | _ \<Rightarrow> [])"

text \<open>What every extraction from the queue does to the state: the first \<open>n\<close> queued
  jobs are dispatched, the others stay queued, and the ticker becomes \<open>t\<close>.\<close>

definition flushed :: "nat \<Rightarrow> Ticker \<Rightarrow> ('a, 'b) world \<Rightarrow> ('a, 'b) world" where
  "flushed n t w =
     w\<lparr>batcher := (batcher w)\<lparr>jobs := drop n (jobs (batcher w)), ticker := t\<rparr>,
       goroutines := goroutines w @ map (\<lambda>j. (j, False)) (take n (jobs (batcher w)))\<rparr>"



section \<open>Sample states\<close>

text \<open>A batcher as \<open>NewBatcher\<close> returns it, with the successor function on numbers
  as its processor, and the state after three calls of \<open>AddJob\<close> on it, in the manner
  of the tests of the repository.\<close>

definition testBatcher :: "duration \<Rightarrow> int \<Rightarrow> (nat, nat) Batcher" where
  "testBatcher freq n =
     \<lparr>processor = Suc, batchSize = n, frequency = freq, shuttingDown = False, jobs = [],
      ticker = \<lparr>period = freq, remaining = freq\<rparr>\<rparr>"

definition testJob :: "nat \<Rightarrow> nat Job" where
  "testJob k = \<lparr>Id_job = int k, Data = 10 * k\<rparr>"

definition threeQueued :: "int \<Rightarrow> (nat, nat) world" where
  "threeQueued n =
     snd (AddJob (testJob 3) (snd (AddJob (testJob 2) (snd (AddJob (testJob 1)
       (program (testBatcher 5 n)))))))"

section \<open>Properties\<close>

subsection \<open>Dispatch and extraction\<close>

lemma processBatch_eq:
  "processBatch batch w = w\<lparr>goroutines := goroutines w @ map (\<lambda>j. (j, False)) batch\<rparr>"
  by (induction batch arbitrary: w) (simp_all add: go_processJob_def)

lemma slice_prefix:
  "0 \<le> n \<Longrightarrow> n \<le> int (length s) \<Longrightarrow> slice s 0 n = Inr (take (nat n) s)"
  by (simp add: slice_def)

lemma slice_suffix:
  "0 \<le> n \<Longrightarrow> n \<le> int (length s) \<Longrightarrow> slice s n (int (length s)) = Inr (drop (nat n) s)"
  by (simp add: slice_def)

lemma tickerFlush_flushed:
  "tickerFlush w = flushed (length (jobs (batcher w))) (ticker (batcher w)) w"
  by (simp add: tickerFlush_def set_jobs_def processBatch_eq flushed_def)

lemma startTicker_iter_flushed:
  assumes "startTicker_iter w = Some w'"
  shows "w' = flushed (length (jobs (batcher w)))
                ((ticker (batcher w))\<lparr>remaining := remaining (ticker (batcher w)) + period (ticker (batcher w))\<rparr>) w"
  using assms
  by (auto simp: startTicker_iter_def recvTick_def tickerFlush_def set_jobs_def set_ticker_def
      processBatch_eq flushed_def split: option.splits if_splits)

lemma Start_case_flushed:
  assumes "Start_case br w = Continue w' \<or> Start_case br w = Return w'"
  shows "\<exists>n t. w' = flushed n t w"
proof (cases br)
  case ShuttingDownCase
  have "w = flushed 0 (ticker (batcher w)) w"
    by (simp add: flushed_def)
  moreover have "set_jobs [] (processBatch (jobs (batcher w)) w)
      = flushed (length (jobs (batcher w))) (ticker (batcher w)) w"
    by (simp add: set_jobs_def processBatch_eq flushed_def)
  ultimately show ?thesis
    using assms ShuttingDownCase by (auto simp: Start_case_def split: if_splits)
next
  case BatchSizeCase
  show ?thesis
  proof (cases "0 \<le> batchSize (batcher w) \<and> batchSize (batcher w) \<le> int (length (jobs (batcher w)))")
    case True
    then have "w' = flushed (nat (batchSize (batcher w)))
        ((ticker (batcher w))\<lparr>period := frequency (batcher w), remaining := frequency (batcher w)\<rparr>) w"
      using assms BatchSizeCase
      by (auto simp: Start_case_def slice_prefix slice_suffix processBatch_eq set_jobs_def
          set_ticker_def Reset_def Let_def flushed_def split: if_splits)
    then show ?thesis by blast
  next
    case False
    then have "slice (jobs (batcher w)) 0 (batchSize (batcher w)) = Inl SliceBoundsOutOfRange"
      by (auto simp: slice_def)
    then show ?thesis
      using assms BatchSizeCase by (simp add: Start_case_def Let_def)
  qed
next
  case NoCase
  have "w = flushed 0 (ticker (batcher w)) w"
    by (simp add: flushed_def)
  then show ?thesis
    using assms NoCase by (auto simp: Start_case_def)
qed

lemma admitted_flushed: "admitted (flushed n t w) = admitted w"
  by (simp add: admitted_def flushed_def comp_def)


subsection \<open>The pairing is an invariant of every execution\<close>

lemma NewBatcher_Inr:
  "NewBatcher proc freq n = Inr b \<longleftrightarrow>
     0 < freq \<and> b = \<lparr>processor = proc, batchSize = n, frequency = freq, shuttingDown = False,
                       jobs = [], ticker = \<lparr>period = freq, remaining = freq\<rparr>\<rparr>"
  by (auto simp: NewBatcher_def NewTicker_def)


lemma AddJob_rejected: "shuttingDown (batcher w) \<Longrightarrow> AddJob j w = ((None, Some SubmissionRejected), w)"
  by (simp add: AddJob_def)

lemma AddJob_admitted:
  "\<not> shuttingDown (batcher w) \<Longrightarrow>
   AddJob j w = ((Some (length (futures w)), None),
     w\<lparr>batcher := (batcher w)\<lparr>jobs := jobs (batcher w) @ [\<lparr>job = j, retCh = length (chans w)\<rparr>]\<rparr>,
       chans := chans w @ [[]],
       futures := futures w @ [\<lparr>JobId = Id_job j, data = None, ch = length (chans w)\<rparr>]\<rparr>)"
  by (simp add: AddJob_def make_chan_def Let_def)

lemma admitted_AddJob:
  "admitted (snd (AddJob j w)) =
     admitted w @ (if shuttingDown (batcher w) then [] else [\<lparr>job = j, retCh = length (chans w)\<rparr>])"
  by (simp add: AddJob_rejected AddJob_admitted admitted_def)



lemma map_fst_returned: "map fst (gs[i := (fst (gs ! i), b)]) = map fst gs"
  by (cases "i < length gs") (auto simp: list_eq_iff_nth_eq nth_list_update)





lemma Start_iter_flushed:
  "Start_iter w = Continue w' \<or> Start_iter w = Return w' \<Longrightarrow> \<exists>n t. w' = flushed n t w"
  unfolding Start_iter_def by (rule Start_case_flushed)


lemma admitted_frame:
  "admitted (w\<lparr>schedulers := k\<rparr>) = admitted w"
  "admitted (w\<lparr>listeners := k\<rparr>) = admitted w"
  "admitted (set_ticker t w) = admitted w"
  "admitted (Shutdown w) = admitted w"
  "admitted (go_startTicker w) = admitted w"
  by (simp_all add: admitted_def set_ticker_def Shutdown_def go_startTicker_def)


lemma admitted_step_Get: "step_Get p w = Next w' \<Longrightarrow> admitted w' = admitted w"
  by (auto simp: step_Get_def admitted_def split: if_splits option.splits)

lemma admitted_step_processJob: "step_processJob i w = Next w' \<Longrightarrow> admitted w' = admitted w"
  by (auto simp: step_processJob_def admitted_def map_fst_returned split: if_splits option.splits)

lemma admitted_step:
  assumes "step e w = Next w'"
  shows "admitted w' = admitted w @
     (case e of
        EvAddJob j \<Rightarrow> if shuttingDown (batcher w) then [] else [\<lparr>job = j, retCh = length (chans w)\<rparr>]
      | _ \<Rightarrow> [])"
proof (cases e)
  case (EvAddJob j)
  then show ?thesis using assms admitted_AddJob [of j w] by auto
next
  case EvStart
  then show ?thesis using assms by (auto simp: admitted_frame)
next
  case EvStartIter
  then show ?thesis
    using assms Start_iter_flushed [of w]
    by (auto simp: admitted_frame admitted_flushed split: if_splits outcome.splits)
next
  case EvShutdown
  then show ?thesis using assms by (auto simp: admitted_frame)
next
  case EvTick
  then show ?thesis
    using assms startTicker_iter_flushed [of w]
    by (auto simp: admitted_flushed split: if_splits option.splits)
next
  case (EvElapse dt)
  then show ?thesis using assms by (auto simp: admitted_frame split: if_splits)
next
  case (EvProcessJob i)
  then show ?thesis using assms admitted_step_processJob by auto
next
  case (EvGet p)
  then show ?thesis using assms admitted_step_Get by auto
qed



lemma run_Cons_Next:
  "run (e # es) w = Next w' \<longleftrightarrow> (\<exists>w1. step e w = Next w1 \<and> run es w1 = Next w')"
  by (simp split: result.splits)




lemma admitted_run_submissions:
  "run es w = Next w' \<Longrightarrow> map job (admitted w') = map job (admitted w) @ submissions es w"
proof (induction es arbitrary: w)
  case Nil
  then show ?case by simp
next
  case (Cons e es)
  then obtain w1 where w1: "step e w = Next w1" "run es w1 = Next w'"
    by (auto simp: run_Cons_Next simp del: run.simps(2))
  have "map job (admitted w1) = map job (admitted w) @
      (case e of EvAddJob j \<Rightarrow> if shuttingDown (batcher w) then [] else [j] | _ \<Rightarrow> [])"
    using admitted_step [OF w1(1)] by (cases e) simp_all
  then show ?case
    using Cons.IH [OF w1(2)] w1(1) by simp
qed

subsection \<open>The cases of the loop of Start\<close>

lemma threeQueued_eq:
  "threeQueued n =
     \<lparr>batcher = \<lparr>processor = Suc, batchSize = n, frequency = 5, shuttingDown = False,
         jobs = [\<lparr>job = testJob 1, retCh = 0\<rparr>, \<lparr>job = testJob 2, retCh = 1\<rparr>,
                 \<lparr>job = testJob 3, retCh = 2\<rparr>],
         ticker = \<lparr>period = 5, remaining = 5\<rparr>\<rparr>,
       chans = [[], [], []],
       futures = [\<lparr>JobId = 1, data = None, ch = 0\<rparr>, \<lparr>JobId = 2, data = None, ch = 1\<rparr>,
                  \<lparr>JobId = 3, data = None, ch = 2\<rparr>],
       goroutines = [], schedulers = 0, listeners = 0\<rparr>"
  by (simp add: threeQueued_def program_def testBatcher_def AddJob_def make_chan_def testJob_def)

lemma flushed_selectors:
  "jobs (batcher (flushed n t w)) = drop n (jobs (batcher w))"
  "goroutines (flushed n t w) = goroutines w @ map (\<lambda>j. (j, False)) (take n (jobs (batcher w)))"
  "ticker (batcher (flushed n t w)) = t"
  "chans (flushed n t w) = chans w"
  "futures (flushed n t w) = futures w"
  "schedulers (flushed n t w) = schedulers w"
  "listeners (flushed n t w) = listeners w"
  "shuttingDown (batcher (flushed n t w)) = shuttingDown (batcher w)"
  "batchSize (batcher (flushed n t w)) = batchSize (batcher w)"
  "frequency (batcher (flushed n t w)) = frequency (batcher w)"
  by (simp_all add: flushed_def)

lemma flushed_nothing: "flushed 0 (ticker (batcher w)) w = w"
  by (simp add: flushed_def)

lemma Start_iter_BatchSizeCase:
  assumes "\<not> shuttingDown (batcher w)"
    and "batchSize (batcher w) \<le> int (length (jobs (batcher w)))"
    and "0 \<le> batchSize (batcher w)"
    and "0 < frequency (batcher w)"
  shows "Start_iter w =
     Continue (flushed (nat (batchSize (batcher w)))
       ((ticker (batcher w))\<lparr>period := frequency (batcher w), remaining := frequency (batcher w)\<rparr>) w)"
  using assms
  by (simp add: Start_iter_def Start_switch_def Start_case_def slice_prefix slice_suffix
      processBatch_eq set_jobs_def set_ticker_def Reset_def Let_def flushed_def)

lemma Start_iter_ShuttingDownCase:
  assumes "shuttingDown (batcher w)"
  shows "Start_iter w = Return (flushed (length (jobs (batcher w))) (ticker (batcher w)) w)"
proof (cases "jobs (batcher w) = []")
  case True
  then show ?thesis
    using assms by (simp add: Start_iter_def Start_switch_def Start_case_def flushed_nothing)
next
  case False
  then show ?thesis
    using assms
    by (simp add: Start_iter_def Start_switch_def Start_case_def processBatch_eq set_jobs_def
        flushed_def)
qed

lemma Start_iter_NoCase:
  assumes "\<not> shuttingDown (batcher w)"
    and "int (length (jobs (batcher w))) < batchSize (batcher w)"
  shows "Start_iter w = Continue w"
  using assms by (simp add: Start_iter_def Start_switch_def Start_case_def)

lemma Start_iter_negative:
  assumes "\<not> shuttingDown (batcher w)" and "batchSize (batcher w) < 0"
  shows "Start_iter w = Panic SliceBoundsOutOfRange"
  using assms by (simp add: Start_iter_def Start_switch_def Start_case_def slice_def Let_def)

lemma Start_iter_Return: "Start_iter w = Return w' \<Longrightarrow> shuttingDown (batcher w)"
  by (auto simp: Start_iter_def Start_switch_def Start_case_def Let_def
      split: if_splits sum.splits)

section \<open>The properties of the specification\<close>

text \<open>
  C7. \<open>Get\<close> is idempotent and caching. With a cached value it returns that value and
  leaves the \<open>JobResult\<close> and the channels as they are. Without one it blocks exactly
  while the channel is empty; otherwise it takes the value out of the channel, caches it
  and returns it. After a call that returned \<open>v\<close>, every later call on the resulting
  \<open>JobResult\<close> returns \<open>v\<close> again, whatever the channels hold, and changes nothing.
\<close>

theorem Get_idempotent_caching:
  "(data jr = Some v \<longrightarrow> Get jr cs = Some (v, jr, cs)) \<and>
   (Get jr cs = None \<longleftrightarrow> data jr = None \<and> (ch jr < length cs \<longrightarrow> cs ! ch jr = [])) \<and>
   (data jr = None \<and> ch jr < length cs \<and> cs ! ch jr = v # rest \<longrightarrow>
      Get jr cs = Some (v, jr\<lparr>data := Some v\<rparr>, cs[ch jr := rest])) \<and>
   (Get jr cs = Some (v, jr', cs') \<longrightarrow>
      data jr' = Some v \<and> (\<forall>cs''. Get jr' cs'' = Some (v, jr', cs'')))"
  by (auto simp: Get_def recv_def split: option.splits list.splits)

theorem Get_idempotent_caching_witness:
  "Get \<lparr>JobId = 1, data = None, ch = 0\<rparr> [[7::nat]]
     = Some (7, \<lparr>JobId = 1, data = Some 7, ch = 0\<rparr>, [[]]) \<and>
   Get \<lparr>JobId = 1, data = Some 7, ch = 0\<rparr> [[]]
     = Some (7::nat, \<lparr>JobId = 1, data = Some 7, ch = 0\<rparr>, [[]]) \<and>
   Get \<lparr>JobId = 1, data = None, ch = 0\<rparr> [[]::nat list] = None"
  using Get_idempotent_caching [of "\<lparr>JobId = 1, data = None, ch = 0\<rparr>" "7::nat" "[[7]]" "[]"
      "\<lparr>JobId = 1, data = Some 7, ch = 0\<rparr>" "[[]]"]
    Get_idempotent_caching [of "\<lparr>JobId = 1, data = None, ch = 0\<rparr>" "7::nat" "[[]]" "[]"]
  by simp

text \<open>
  C2. \<open>AddJob\<close> returns an error if and only if \<open>shuttingDown\<close> is set when it is
  called; then the error is the rejection, the \<open>JobResult\<close> is nil and the state (the
  queue with it) is unchanged. Otherwise it appends exactly one job to the tail of the
  queue, with the submitted job and a channel made for it, and returns a new
  \<open>JobResult\<close> with the id of the job, nothing cached and that channel, empty, so that
  \<open>Get\<close> on it blocks.
\<close>

theorem AddJob_spec:
  "(snd (fst (AddJob j w)) \<noteq> None \<longleftrightarrow> shuttingDown (batcher w)) \<and>
   (shuttingDown (batcher w) \<longrightarrow>
      AddJob j w = ((None, Some SubmissionRejected), w)) \<and>
   (\<not> shuttingDown (batcher w) \<longrightarrow>
      (\<exists>w'. AddJob j w = ((Some (length (futures w)), None), w') \<and>
         jobs (batcher w') = jobs (batcher w) @ [\<lparr>job = j, retCh = length (chans w)\<rparr>] \<and>
         length (jobs (batcher w')) = Suc (length (jobs (batcher w))) \<and>
         futures w' = futures w @ [\<lparr>JobId = Id_job j, data = None, ch = length (chans w)\<rparr>] \<and>
         JobId (futures w' ! length (futures w)) = Id_job j \<and>
         chans w' = chans w @ [[]] \<and>
         Get (futures w' ! length (futures w)) (chans w') = None \<and>
         goroutines w' = goroutines w \<and>
         shuttingDown (batcher w') = shuttingDown (batcher w) \<and>
         ticker (batcher w') = ticker (batcher w)))"
  by (simp add: AddJob_def make_chan_def Get_def recv_def Let_def)

theorem AddJob_spec_witness:
  "AddJob (testJob 4) (Shutdown (threeQueued 2))
     = ((None, Some SubmissionRejected), Shutdown (threeQueued 2)) \<and>
   (\<exists>w'. AddJob (testJob 4) (threeQueued 2) = ((Some 3, None), w') \<and>
      jobs (batcher w') = jobs (batcher (threeQueued 2)) @ [\<lparr>job = testJob 4, retCh = 3\<rparr>] \<and>
      futures w' ! 3 = \<lparr>JobId = 4, data = None, ch = 3\<rparr>)"
  using AddJob_spec [of "testJob 4" "Shutdown (threeQueued 2)"]
    AddJob_spec [of "testJob 4" "threeQueued 2"]
  by (auto simp: threeQueued_eq Shutdown_def testJob_def)



lemma startTicker_iter_ready:
  "(\<exists>w'. startTicker_iter w = Some w') \<longleftrightarrow> tickReady (ticker (batcher w))"
  by (simp add: startTicker_iter_def recvTick_def)

lemma tickerFlush_empty: "jobs (batcher w) = [] \<Longrightarrow> tickerFlush w = w"
  by (simp add: tickerFlush_flushed flushed_nothing)

text \<open>
  C4. One turn of the loop of \<open>startTicker\<close> goes through exactly when a tick of the
  ticker can be received. It then dispatches the entire queue, one goroutine for each
  queued job in the order of the queue, and leaves the queue empty; on an empty queue
  the flush starts no goroutine and changes nothing. No condition on \<open>batchSize\<close> enters.
\<close>

theorem timer_flush_whole_queue:
  "(startTicker_iter w \<noteq> None \<longleftrightarrow> tickReady (ticker (batcher w))) \<and>
   (\<forall>w'. startTicker_iter w = Some w' \<longrightarrow>
      jobs (batcher w') = [] \<and>
      goroutines w' = goroutines w @ map (\<lambda>j. (j, False)) (jobs (batcher w)) \<and>
      (jobs (batcher w) = [] \<longrightarrow> goroutines w' = goroutines w) \<and>
      chans w' = chans w \<and> futures w' = futures w \<and>
      batchSize (batcher w') = batchSize (batcher w)) \<and>
   jobs (batcher (tickerFlush w)) = [] \<and>
   goroutines (tickerFlush w) = goroutines w @ map (\<lambda>j. (j, False)) (jobs (batcher w)) \<and>
   (jobs (batcher w) = [] \<longrightarrow> tickerFlush w = w)"
  using startTicker_iter_flushed [of w]
  by (auto simp: startTicker_iter_ready tickerFlush_flushed flushed_selectors flushed_nothing)

theorem timer_flush_whole_queue_witness:
  "(\<exists>w'. startTicker_iter (set_ticker \<lparr>period = 5, remaining = 0\<rparr> (threeQueued 10)) = Some w' \<and>
      jobs (batcher w') = [] \<and>
      map fst (goroutines w') = jobs (batcher (threeQueued 10))) \<and>
   (\<exists>w'. startTicker_iter (set_ticker \<lparr>period = 5, remaining = 0\<rparr> (threeQueued 2)) = Some w' \<and>
      jobs (batcher w') = [] \<and>
      map fst (goroutines w') = jobs (batcher (threeQueued 2))) \<and>
   tickerFlush (program (testBatcher 5 2)) = program (testBatcher 5 2)"
proof -
  have e: "jobs (batcher (program (testBatcher 5 2))) = []"
    by (simp add: program_def testBatcher_def)
  have r: "tickReady (ticker (batcher (set_ticker \<lparr>period = 5, remaining = 0\<rparr> (threeQueued n))))" for n
    by (simp add: set_ticker_def tickReady_def)
  have "\<exists>w'. startTicker_iter (set_ticker \<lparr>period = 5, remaining = 0\<rparr> (threeQueued n)) = Some w' \<and>
      jobs (batcher w') = [] \<and>
      map fst (goroutines w') = jobs (batcher (threeQueued n))" for n
    using timer_flush_whole_queue [of "set_ticker \<lparr>period = 5, remaining = 0\<rparr> (threeQueued n)"] r [of n]
    by (auto simp: set_ticker_def threeQueued_eq)
  moreover have "tickerFlush (program (testBatcher 5 2)) = program (testBatcher 5 2)"
    using timer_flush_whole_queue [of "program (testBatcher 5 2)"] e by blast
  ultimately show ?thesis by blast
qed





lemma Start_iter_Continue:
  assumes "Start_iter w = Continue w'"
  shows "\<not> shuttingDown (batcher w) \<and> \<not> shuttingDown (batcher w')"
proof -
  have n: "\<not> shuttingDown (batcher w)"
    using assms Start_iter_ShuttingDownCase [of w] by auto
  obtain n t where "w' = flushed n t w"
    using Start_iter_flushed [of w w'] assms by blast
  then show ?thesis using n by (simp add: flushed_selectors)
qed

lemma Start_loop_ShuttingDown:
  "shuttingDown (batcher w) \<Longrightarrow>
   Start_loop w = Some (Inr (flushed (length (jobs (batcher w))) (ticker (batcher w)) w))"
  by (subst Start_loop.simps) (simp add: Start_iter_ShuttingDownCase)

lemmas Start_loop_induct = Start_loop.raw_induct [rotated 1, consumes 1, case_names turn]

lemma Start_loop_returns:
  "Start_loop w = Some r \<Longrightarrow>
   \<forall>w'. r = Inr w' \<longrightarrow>
     shuttingDown (batcher w) \<and> w' = flushed (length (jobs (batcher w))) (ticker (batcher w)) w"
proof (induction rule: Start_loop_induct)
  case (turn loop w r)
  show ?case
  proof (cases "Start_iter w")
    case (Return w1)
    then show ?thesis
      using turn(2) Start_iter_Return [of w w1] Start_iter_ShuttingDownCase [of w] by auto
  next
    case (Continue w1)
    then have "loop w1 = Some r" using turn(2) by simp
    from turn(1) [OF this] Start_iter_Continue [OF Continue] show ?thesis by blast
  next
    case (Panic p)
    then show ?thesis using turn(2) by auto
  qed
qed

text \<open>
  C6. When \<open>shuttingDown\<close> is set, one turn of the loop of \<open>Start\<close> returns, after
  dispatching the entire queue, one goroutine for each queued job in the order of the
  queue, whether or not the queue is empty; the queue is empty afterwards. A turn returns
  only when \<open>shuttingDown\<close> is set. The loop as a whole returns when the flag is set, and
  whenever it returns a state, the flag was set and the queue is empty. Among the
  interleaved steps, the number of running loops goes down only by such a turn, and the
  loop that has returned takes no further turn.
\<close>

theorem shutdown_drain:
  "(shuttingDown (batcher w) \<longrightarrow>
      (\<exists>w'. Start_iter w = Return w' \<and> Start_loop w = Some (Inr w') \<and>
         jobs (batcher w') = [] \<and> length (jobs (batcher w')) = 0 \<and>
         goroutines w' = goroutines w @ map (\<lambda>j. (j, False)) (jobs (batcher w)))) \<and>
   (\<forall>w'. Start_iter w = Return w' \<longrightarrow> shuttingDown (batcher w)) \<and>
   (\<forall>w'. Start_loop w = Some (Inr w') \<longrightarrow> shuttingDown (batcher w) \<and> jobs (batcher w') = []) \<and>
   (\<forall>w'. step EvStartIter w = Next w' \<and> schedulers w' < schedulers w \<longrightarrow>
      shuttingDown (batcher w) \<and> jobs (batcher w') = []) \<and>
   (shuttingDown (batcher w) \<and> schedulers w = 1 \<longrightarrow>
      (\<exists>w'. step EvStartIter w = Next w' \<and> schedulers w' = 0 \<and> jobs (batcher w') = [] \<and>
         step EvStartIter w' = Blocked))"
proof -
  let ?d = "flushed (length (jobs (batcher w))) (ticker (batcher w)) w"
  have a: "Start_iter w = Return ?d \<and> Start_loop w = Some (Inr ?d) \<and>
         jobs (batcher ?d) = [] \<and> length (jobs (batcher ?d)) = 0 \<and>
         goroutines ?d = goroutines w @ map (\<lambda>j. (j, False)) (jobs (batcher w))"
    if "shuttingDown (batcher w)"
    using that by (simp add: Start_iter_ShuttingDownCase Start_loop_ShuttingDown flushed_selectors)
  have b: "shuttingDown (batcher w)" if "Start_iter w = Return w'" for w'
    using that by (rule Start_iter_Return)
  have c: "shuttingDown (batcher w) \<and> jobs (batcher w') = []" if "Start_loop w = Some (Inr w')" for w'
    using Start_loop_returns [OF that] by (simp add: flushed_selectors)
  have d: "shuttingDown (batcher w) \<and> jobs (batcher w') = []"
    if "step EvStartIter w = Next w'" "schedulers w' < schedulers w" for w'
  proof (cases "Start_iter w")
    case (Return w1)
    then show ?thesis
      using that Start_iter_Return [of w w1] Start_iter_ShuttingDownCase [of w]
      by (auto simp: flushed_selectors split: if_splits)
  next
    case (Continue w1)
    then obtain n t where "w1 = flushed n t w"
      using Start_iter_flushed [of w w1] by blast
    then show ?thesis
      using that Continue by (auto simp: flushed_selectors split: if_splits)
  next
    case (Panic p)
    then show ?thesis using that by (auto split: if_splits)
  qed
  have e: "\<exists>w'. step EvStartIter w = Next w' \<and> schedulers w' = 0 \<and> jobs (batcher w') = [] \<and>
         step EvStartIter w' = Blocked"
    if "shuttingDown (batcher w)" "schedulers w = 1"
    using that by (simp add: Start_iter_ShuttingDownCase flushed_selectors)
  from a b c d e show ?thesis by blast
qed

theorem shutdown_drain_witness:
  "(\<exists>w'. Start_iter (Shutdown (threeQueued 10)) = Return w' \<and>
      Start_loop (Shutdown (threeQueued 10)) = Some (Inr w') \<and>
      jobs (batcher w') = [] \<and>
      map fst (goroutines w') = jobs (batcher (threeQueued 10))) \<and>
   (\<exists>w w'. run [EvStart, EvShutdown] (threeQueued 10) = Next w \<and>
      step EvStartIter w = Next w' \<and> schedulers w' = 0 \<and> jobs (batcher w') = [] \<and>
      step EvStartIter w' = Blocked)"
proof -
  let ?w = "Shutdown ((go_startTicker (threeQueued 10))\<lparr>schedulers := 1\<rparr>)"
  have "shuttingDown (batcher (Shutdown (threeQueued 10)))"
    by (simp add: Shutdown_def)
  with shutdown_drain [of "Shutdown (threeQueued 10)"]
  have 1: "\<exists>w'. Start_iter (Shutdown (threeQueued 10)) = Return w' \<and>
      Start_loop (Shutdown (threeQueued 10)) = Some (Inr w') \<and>
      jobs (batcher w') = [] \<and>
      map fst (goroutines w') = jobs (batcher (threeQueued 10))"
    by (auto simp: Shutdown_def threeQueued_eq)
  have r: "run [EvStart, EvShutdown] (threeQueued 10) = Next ?w"
    by (simp add: threeQueued_eq)
  have "shuttingDown (batcher ?w) \<and> schedulers ?w = 1"
    by (simp add: Shutdown_def)
  with shutdown_drain [of ?w]
  have "\<exists>w'. step EvStartIter ?w = Next w' \<and> schedulers w' = 0 \<and> jobs (batcher w') = [] \<and>
      step EvStartIter w' = Blocked"
    by blast
  with r 1 show ?thesis by blast
qed













lemma Start_iter_zero:
  assumes "batchSize (batcher w) = 0" and "\<not> shuttingDown (batcher w)"
    and "0 < frequency (batcher w)"
  shows "Start_iter w = Continue (set_ticker
     ((ticker (batcher w))\<lparr>period := frequency (batcher w), remaining := frequency (batcher w)\<rparr>) w)"
proof -
  have "flushed 0 t w = set_ticker t w" for t
    by (simp add: flushed_def set_ticker_def)
  then show ?thesis
    using Start_iter_BatchSizeCase [of w] assms by simp
qed

lemma Start_loop_zero_aux:
  "Start_loop w = Some r \<Longrightarrow>
   batchSize (batcher w) = 0 \<and> \<not> shuttingDown (batcher w) \<and> 0 < frequency (batcher w) \<Longrightarrow> False"
proof (induction rule: Start_loop_induct)
  case (turn loop w r)
  let ?w1 = "set_ticker
     ((ticker (batcher w))\<lparr>period := frequency (batcher w), remaining := frequency (batcher w)\<rparr>) w"
  have "Start_iter w = Continue ?w1"
    using turn(3) by (simp add: Start_iter_zero)
  then have "loop ?w1 = Some r" using turn(2) by simp
  moreover have "batchSize (batcher ?w1) = 0 \<and> \<not> shuttingDown (batcher ?w1) \<and>
      0 < frequency (batcher ?w1)"
    using turn(3) by (simp add: set_ticker_def)
  ultimately show ?case by (rule turn(1))
qed

lemma Start_loop_zero:
  assumes "batchSize (batcher w) = 0" and "\<not> shuttingDown (batcher w)"
    and "0 < frequency (batcher w)"
  shows "Start_loop w = None"
  using Start_loop_zero_aux [of w] assms by (cases "Start_loop w") auto

text \<open>
  C10, as the code has it. \<open>NewBatcher\<close> checks nothing about \<open>batchSize\<close>: with a
  positive \<open>frequency\<close>, every integer is stored as it is. For every \<open>batchSize\<close> of at
  most zero the loop of \<open>Start\<close> takes the size case while \<open>shuttingDown\<close> is not set,
  also on an empty queue. For \<open>batchSize\<close> zero, a turn then dispatches the empty batch:
  it starts no goroutine, leaves the queue as it is and goes on to the next turn, again
  and again, so that the loop on its own never returns.
\<close>

theorem NewBatcher_unvalidated_batchSize:
  "(0 < freq \<longrightarrow>
      NewBatcher proc freq n =
        Inr \<lparr>processor = proc, batchSize = n, frequency = freq, shuttingDown = False,
             jobs = [], ticker = \<lparr>period = freq, remaining = freq\<rparr>\<rparr>) \<and>
   (batchSize b \<le> 0 \<and> \<not> shuttingDown b \<longrightarrow> Start_switch b = BatchSizeCase) \<and>
   (batchSize (batcher w) = 0 \<and> \<not> shuttingDown (batcher w) \<and> 0 < frequency (batcher w) \<longrightarrow>
      (\<exists>w'. Start_iter w = Continue w' \<and> goroutines w' = goroutines w \<and>
         jobs (batcher w') = jobs (batcher w) \<and> batchSize (batcher w') = 0 \<and>
         \<not> shuttingDown (batcher w') \<and> 0 < frequency (batcher w')) \<and>
      Start_loop w = None)"
  by (simp add: NewBatcher_Inr Start_switch_def Start_iter_zero Start_loop_zero set_ticker_def)

theorem NewBatcher_unvalidated_batchSize_witness:
  "NewBatcher Suc 5 0 = Inr (testBatcher 5 0) \<and>
   NewBatcher Suc 5 (- 1) = Inr (testBatcher 5 (- 1)) \<and>
   Start_switch (testBatcher 5 (- 1)) = BatchSizeCase \<and>
   (\<exists>w'. Start_iter (program (testBatcher 5 0)) = Continue w' \<and> goroutines w' = [] \<and>
      jobs (batcher w') = []) \<and>
   Start_loop (program (testBatcher 5 0)) = None"
proof -
  have h: "batchSize (batcher (program (testBatcher 5 0))) = 0 \<and>
     \<not> shuttingDown (batcher (program (testBatcher 5 0))) \<and>
     0 < frequency (batcher (program (testBatcher 5 0)))"
    "batchSize (testBatcher 5 (- 1)) \<le> 0 \<and> \<not> shuttingDown (testBatcher 5 (- 1))"
    by (simp_all add: program_def testBatcher_def)
  show ?thesis
    using h NewBatcher_unvalidated_batchSize [of 5 Suc 0 "testBatcher 5 (- 1)" "program (testBatcher 5 0)"]
      NewBatcher_unvalidated_batchSize [of 5 Suc "- 1" "testBatcher 5 (- 1)" "program (testBatcher 5 0)"]
    by (auto simp: program_def testBatcher_def)
qed

text \<open>
  C10, as stated, fails for a negative \<open>batchSize\<close>: on the batcher that
  \<open>NewBatcher\<close> returns for a \<open>batchSize\<close> of \<open>-1\<close>, with an empty queue, the loop of
  \<open>Start\<close> takes the size case, and the slice expression \<open>b.jobs[0:b.batchSize]\<close>
  panics; no empty batch is dispatched. And no \<open>batchSize\<close> is stored when the
  \<open>frequency\<close> is not positive: \<open>time.NewTicker\<close> panics.
\<close>

theorem negative_batchSize_counterexample:
  "NewBatcher Suc 0 (1::int) = (Inl NonPositiveInterval :: panic + (nat, nat) Batcher) \<and>
   NewBatcher Suc 5 (- 1) = Inr (testBatcher 5 (- 1)) \<and>
   batchSize (testBatcher 5 (- 1)) \<le> 0 \<and>
   jobs (batcher (program (testBatcher 5 (- 1)))) = [] \<and>
   Start_switch (batcher (program (testBatcher 5 (- 1)))) = BatchSizeCase \<and>
   Start_iter (program (testBatcher 5 (- 1))) = Panic SliceBoundsOutOfRange \<and>
   Start (program (testBatcher 5 (- 1))) = Some (Inl SliceBoundsOutOfRange)"
proof -
  have "Start_iter (go_startTicker (program (testBatcher 5 (- 1)))) = Panic SliceBoundsOutOfRange"
    by (rule Start_iter_negative) (simp_all add: go_startTicker_def program_def testBatcher_def)
  then have "Start (program (testBatcher 5 (- 1))) = Some (Inl SliceBoundsOutOfRange)"
    unfolding Start_def by (subst Start_loop.simps) simp
  moreover have "Start_iter (program (testBatcher 5 (- 1))) = Panic SliceBoundsOutOfRange"
    by (rule Start_iter_negative) (simp_all add: program_def testBatcher_def)
  moreover have "NewBatcher Suc 0 (1::int) = (Inl NonPositiveInterval :: panic + (nat, nat) Batcher)"
    by (simp add: NewBatcher_def NewTicker_def)
  ultimately show ?thesis
    by (simp add: NewBatcher_Inr Start_switch_def) (simp add: program_def testBatcher_def)
qed

lemma goroutines_step:
  assumes "step e w = Next w'"
  shows "(\<exists>batch. goroutines w' = goroutines w @ map (\<lambda>j. (j, False)) batch) \<or>
     (\<exists>i. i < length (goroutines w) \<and>
        goroutines w' = (goroutines w)[i := (fst (goroutines w ! i), True)])"
proof -
  have same: "goroutines w' = goroutines w \<Longrightarrow> ?thesis"
    by (rule disjI1, rule exI [of _ "[]"]) simp
  have fl: "w' = flushed n t v \<Longrightarrow> goroutines v = goroutines w \<Longrightarrow> ?thesis" for n t v
    by (rule disjI1) (auto simp: flushed_selectors)
  show ?thesis
  proof (cases e)
    case (EvAddJob j)
    then show ?thesis using assms by (auto simp: AddJob_def make_chan_def Let_def intro!: same)
  next
    case EvStart
    then show ?thesis using assms by (auto simp: go_startTicker_def intro!: same)
  next
    case EvStartIter
    show ?thesis
    proof (cases "Start_iter w")
      case (Return w1)
      then obtain n t where w1: "w1 = flushed n t w" using Start_iter_flushed [of w w1] by blast
      have "w' = flushed n t (w\<lparr>schedulers := schedulers w - 1\<rparr>)"
        using assms EvStartIter Return w1 by (auto simp: flushed_def split: if_splits)
      then show ?thesis by (rule fl) simp
    next
      case (Continue w1)
      then obtain n t where w1: "w1 = flushed n t w" using Start_iter_flushed [of w w1] by blast
      then have "w' = flushed n t w"
        using assms EvStartIter Continue by (auto split: if_splits)
      then show ?thesis by (rule fl) simp
    next
      case (Panic p)
      then show ?thesis using assms EvStartIter by (auto split: if_splits)
    qed
  next
    case EvShutdown
    then show ?thesis using assms by (auto simp: Shutdown_def intro!: same)
  next
    case EvTick
    then obtain n t where "w' = flushed n t w"
      using assms startTicker_iter_flushed [of w w'] by (auto split: if_splits option.splits)
    then show ?thesis by (rule fl) simp
  next
    case (EvElapse dt)
    then show ?thesis using assms by (auto simp: set_ticker_def split: if_splits intro!: same)
  next
    case (EvProcessJob i)
    then have "i < length (goroutines w) \<and>
        goroutines w' = (goroutines w)[i := (fst (goroutines w ! i), True)]"
      using assms by (auto simp: step_processJob_def split: if_splits option.splits)
    then show ?thesis by blast
  next
    case (EvGet p)
    then show ?thesis
      using assms by (auto simp: step_Get_def split: if_splits option.splits intro!: same)
  qed
qed

lemma dispatched_step:
  assumes "step e w = Next w'"
  shows "\<exists>batch. map fst (goroutines w') = map fst (goroutines w) @ batch"
  using goroutines_step [OF assms]
proof
  assume "\<exists>batch. goroutines w' = goroutines w @ map (\<lambda>j. (j, False)) batch"
  then show ?thesis by (auto simp: comp_def)
next
  assume "\<exists>i. i < length (goroutines w) \<and>
        goroutines w' = (goroutines w)[i := (fst (goroutines w ! i), True)]"
  then have "map fst (goroutines w') = map fst (goroutines w) @ []"
    by (auto simp: map_fst_returned)
  then show ?thesis by blast
qed

lemma dispatched_run:
  "run es w = Next w' \<Longrightarrow> \<exists>batch. map fst (goroutines w') = map fst (goroutines w) @ batch"
proof (induction es arbitrary: w)
  case Nil
  then show ?case by simp
next
  case (Cons e es)
  then obtain w1 where w1: "step e w = Next w1" "run es w1 = Next w'"
    by (auto simp: run_Cons_Next simp del: run.simps(2))
  from dispatched_step [OF w1(1)] obtain xs where "map fst (goroutines w1) = map fst (goroutines w) @ xs"
    by blast
  moreover from Cons.IH [OF w1(2)] obtain ys where "map fst (goroutines w') = map fst (goroutines w1) @ ys"
    by blast
  ultimately show ?case by simp
qed

lemma extraction_flushed:
  "\<exists>batch. jobs (batcher w) = batch @ jobs (batcher (flushed n t w)) \<and>
     map fst (goroutines (flushed n t w)) = map fst (goroutines w) @ batch"
  by (rule exI [of _ "take n (jobs (batcher w))"]) (simp add: flushed_selectors comp_def)

text \<open>
  C8. The queue keeps the order of submission under every operation. \<open>AddJob\<close> appends
  the job at the tail and dispatches nothing. Every extraction (a turn of the loop of
  \<open>Start\<close>, in the size case or at shutdown, and a turn of the loop of \<open>startTicker\<close>)
  takes a prefix off the head of the queue and appends it, in its order, to the
  goroutines started so far. Every step of an execution only appends to the goroutines
  started, and leaves the sequence of the dispatched jobs followed by the queued ones as
  it is, but for the jobs it admits at the end. So after any execution, the jobs
  dispatched so far, in the order of their dispatch, followed by the queue, are the jobs
  submitted, in the order of their submission.
\<close>

theorem queue_preserves_submission_order:
  "(\<not> shuttingDown (batcher w) \<longrightarrow>
      jobs (batcher (snd (AddJob j w))) = jobs (batcher w) @ [\<lparr>job = j, retCh = length (chans w)\<rparr>] \<and>
      goroutines (snd (AddJob j w)) = goroutines w) \<and>
   (\<forall>w'. Start_iter w = Continue w' \<or> Start_iter w = Return w' \<or> startTicker_iter w = Some w' \<longrightarrow>
      (\<exists>batch. jobs (batcher w) = batch @ jobs (batcher w') \<and>
         map fst (goroutines w') = map fst (goroutines w) @ batch)) \<and>
   (\<forall>e w'. step e w = Next w' \<longrightarrow>
      (\<exists>batch new. map fst (goroutines w') = map fst (goroutines w) @ batch \<and>
         batch @ jobs (batcher w') = jobs (batcher w) @ new)) \<and>
   (\<forall>es w'. run es w = Next w' \<longrightarrow>
      (\<exists>batch. map fst (goroutines w') = map fst (goroutines w) @ batch) \<and>
      map job (map fst (goroutines w')) @ map job (jobs (batcher w')) =
        map job (map fst (goroutines w)) @ map job (jobs (batcher w)) @ submissions es w \<and>
      (goroutines w = [] \<and> jobs (batcher w) = [] \<longrightarrow>
         map job (map fst (goroutines w')) = take (length (goroutines w')) (submissions es w) \<and>
         map job (jobs (batcher w')) = drop (length (goroutines w')) (submissions es w)))"
proof -
  have a: "jobs (batcher (snd (AddJob j w))) = jobs (batcher w) @ [\<lparr>job = j, retCh = length (chans w)\<rparr>] \<and>
      goroutines (snd (AddJob j w)) = goroutines w" if "\<not> shuttingDown (batcher w)"
    using that by (simp add: AddJob_admitted)
  have b: "\<exists>batch. jobs (batcher w) = batch @ jobs (batcher w') \<and>
         map fst (goroutines w') = map fst (goroutines w) @ batch"
    if "Start_iter w = Continue w' \<or> Start_iter w = Return w' \<or> startTicker_iter w = Some w'" for w'
  proof -
    have "\<exists>n t. w' = flushed n t w"
      using that Start_iter_flushed [of w w'] startTicker_iter_flushed [of w w'] by blast
    then show ?thesis using extraction_flushed [of w] by blast
  qed
  have c: "\<exists>batch new. map fst (goroutines w') = map fst (goroutines w) @ batch \<and>
         batch @ jobs (batcher w') = jobs (batcher w) @ new" if st: "step e w = Next w'" for e w'
  proof -
    obtain batch where batch: "map fst (goroutines w') = map fst (goroutines w) @ batch"
      using dispatched_step [OF st] by blast
    obtain new where "admitted w' = admitted w @ new"
      using admitted_step [OF st] by blast
    then have "batch @ jobs (batcher w') = jobs (batcher w) @ new"
      using batch by (simp add: admitted_def)
    then show ?thesis using batch by blast
  qed
  have d: "(\<exists>batch. map fst (goroutines w') = map fst (goroutines w) @ batch) \<and>
      map job (map fst (goroutines w')) @ map job (jobs (batcher w')) =
        map job (map fst (goroutines w)) @ map job (jobs (batcher w)) @ submissions es w \<and>
      (goroutines w = [] \<and> jobs (batcher w) = [] \<longrightarrow>
         map job (map fst (goroutines w')) = take (length (goroutines w')) (submissions es w) \<and>
         map job (jobs (batcher w')) = drop (length (goroutines w')) (submissions es w))"
    if r: "run es w = Next w'" for es w'
  proof -
    have s: "map job (map fst (goroutines w')) @ map job (jobs (batcher w')) =
        map job (map fst (goroutines w)) @ map job (jobs (batcher w)) @ submissions es w"
      using admitted_run_submissions [OF r] by (simp add: admitted_def)
    have "map job (map fst (goroutines w')) = take (length (goroutines w')) (submissions es w) \<and>
         map job (jobs (batcher w')) = drop (length (goroutines w')) (submissions es w)"
      if "goroutines w = []" "jobs (batcher w) = []"
    proof -
      have "submissions es w = map job (map fst (goroutines w')) @ map job (jobs (batcher w'))"
        using s that by simp
      then show ?thesis by simp
    qed
    then show ?thesis using s dispatched_run [OF r] by blast
  qed
  from a b c d show ?thesis by blast
qed


theorem queue_preserves_submission_order_witness:
  "(\<exists>w'. run [EvAddJob (testJob 1), EvAddJob (testJob 2), EvAddJob (testJob 3), EvStart, EvStartIter]
           (program (testBatcher 5 2)) = Next w' \<and>
      map job (map fst (goroutines w')) = [testJob 1, testJob 2] \<and>
      map job (jobs (batcher w')) = [testJob 3]) \<and>
   jobs (batcher (snd (AddJob (testJob 4) (threeQueued 2))))
     = jobs (batcher (threeQueued 2)) @ [\<lparr>job = testJob 4, retCh = 3\<rparr>] \<and>
   (\<exists>w' batch. Start_iter (threeQueued 2) = Continue w' \<and>
      jobs (batcher (threeQueued 2)) = batch @ jobs (batcher w') \<and>
      map fst (goroutines w') = map fst (goroutines (threeQueued 2)) @ batch)"
proof -
  have n: "\<not> shuttingDown (batcher (threeQueued 2))" "length (chans (threeQueued 2)) = 3"
    by (simp_all add: threeQueued_eq)
  have "\<exists>w'. Start_iter (threeQueued 2) = Continue w'"
    by (simp add: Start_iter_BatchSizeCase threeQueued_eq)
  then have x: "\<exists>w' batch. Start_iter (threeQueued 2) = Continue w' \<and>
      jobs (batcher (threeQueued 2)) = batch @ jobs (batcher w') \<and>
      map fst (goroutines w') = map fst (goroutines (threeQueued 2)) @ batch"
    using queue_preserves_submission_order [of "threeQueued 2"] by blast
  have y: "jobs (batcher (snd (AddJob (testJob 4) (threeQueued 2))))
     = jobs (batcher (threeQueued 2)) @ [\<lparr>job = testJob 4, retCh = 3\<rparr>]"
    using queue_preserves_submission_order [of "threeQueued 2" "testJob 4"] n by simp
  let ?es = "[EvAddJob (testJob 1), EvAddJob (testJob 2), EvAddJob (testJob 3), EvStart, EvStartIter]"
  let ?w = "program (testBatcher 5 2)"
  have "\<exists>w'. run ?es ?w = Next w' \<and> length (goroutines w') = 2"
    by (simp add: AddJob_def make_chan_def program_def testBatcher_def Let_def go_startTicker_def
        Start_iter_def Start_switch_def Start_case_def slice_def go_processJob_def set_jobs_def
        set_ticker_def Reset_def)
  then obtain w' where r: "run ?es ?w = Next w'" and l: "length (goroutines w') = 2"
    by blast
  have s: "submissions ?es ?w = [testJob 1, testJob 2, testJob 3]"
    by (simp add: AddJob_def make_chan_def program_def testBatcher_def Let_def go_startTicker_def
        Start_iter_def Start_switch_def Start_case_def slice_def go_processJob_def set_jobs_def
        set_ticker_def Reset_def)
  have e: "goroutines ?w = [] \<and> jobs (batcher ?w) = []"
    by (simp add: program_def testBatcher_def)
  from queue_preserves_submission_order [of ?w] r e
  have "map job (map fst (goroutines w')) = take (length (goroutines w')) (submissions ?es ?w) \<and>
         map job (jobs (batcher w')) = drop (length (goroutines w')) (submissions ?es ?w)"
    by blast
  then have "\<exists>w'. run ?es ?w = Next w' \<and>
      map job (map fst (goroutines w')) = [testJob 1, testJob 2] \<and>
      map job (jobs (batcher w')) = [testJob 3]"
    using r unfolding l s by simp
  then show ?thesis using x y by blast
qed



















end
